theory Spec2Isabelle
  imports Complex_Main
begin

section \<open>Exceptions\<close>

text \<open>
  The exception classes of \<^verbatim>\<open>exceptions.py\<close> together with the built-in ones the code
  raises. The three worker-level classes carry the fixed part of their message, which is
  what tells the raise sites of one class apart.
\<close>

datatype exn =
    QueueEmpty
  | QueueFull
  | ValueError
  | IndexError
  | RuntimeError
  | ProducerError string
  | ConsumerError string
  | CoordinatorError string

section \<open>ThreadSafeQueue\<close>

text \<open>
  \<^verbatim>\<open>custom_queue.py\<close>. The deque \<^verbatim>\<open>_queue\<close> is a list whose head is the left end.
  Timeouts and clock readings are real numbers; \<^verbatim>\<open>Optional[float]\<close> is an option.

  The lock and the two condition variables are modelled by atomicity: everything a call
  does between acquiring the lock and either leaving the \<^verbatim>\<open>with\<close> block or calling
  \<^verbatim>\<open>wait\<close> is one function application on the queue. A call that reaches \<^verbatim>\<open>wait\<close>
  yields \<open>Suspended\<close> together with what it has to remember (nothing, or its deadline);
  when the thread is woken (by \<^verbatim>\<open>notify\<close>, by the timeout of \<^verbatim>\<open>wait\<close>, or spuriously)
  it re-enters its \<^verbatim>\<open>while\<close> loop through the matching wake-up function.
\<close>

record 'a ThreadSafeQueue =
  queue_items :: "'a list"
  maxsize :: int

datatype waiting = Wait_forever | Wait_until real

datatype 'r result = Returned 'r | Raised exn | Suspended waiting

definition new_queue :: "int \<Rightarrow> 'a ThreadSafeQueue" where
  "new_queue k = \<lparr>queue_items = [], maxsize = k\<rparr>"

definition qsize :: "'a ThreadSafeQueue \<Rightarrow> int" where
  "qsize q = int (length (queue_items q))"

definition q_empty :: "'a ThreadSafeQueue \<Rightarrow> bool" where
  "q_empty q = (\<not> (qsize q \<noteq> 0))"

definition q_full :: "'a ThreadSafeQueue \<Rightarrow> bool" where
  "q_full q = (0 < maxsize q \<and> maxsize q \<le> qsize q)"

text \<open>Lines 114-118 of \<^verbatim>\<open>put\<close>: append at the right end (the notify changes no data).\<close>

definition put_append :: "'a ThreadSafeQueue \<Rightarrow> 'a \<Rightarrow> unit result \<times> 'a ThreadSafeQueue" where
  "put_append q item = (Returned (), q\<lparr>queue_items := queue_items q @ [item]\<rparr>)"

text \<open>The loop \<^verbatim>\<open>while self._qsize() >= self._maxsize: self._not_full.wait()\<close>.\<close>

definition put_wait_forever :: "'a ThreadSafeQueue \<Rightarrow> 'a \<Rightarrow> unit result \<times> 'a ThreadSafeQueue" where
  "put_wait_forever q item =
     (if qsize q \<ge> maxsize q then (Suspended Wait_forever, q) else put_append q item)"

text \<open>
  The timed loop; \<open>now\<close> is the value \<^verbatim>\<open>time.time()\<close> returns when \<^verbatim>\<open>remaining\<close> is
  computed in this pass.
\<close>

definition put_wait_until ::
  "'a ThreadSafeQueue \<Rightarrow> 'a \<Rightarrow> real \<Rightarrow> real \<Rightarrow> unit result \<times> 'a ThreadSafeQueue" where
  "put_wait_until q item endtime now =
     (if qsize q \<ge> maxsize q then
        (let remaining = endtime - now in
         if remaining \<le> 0 then (Raised QueueFull, q)
         else (Suspended (Wait_until endtime), q))
      else put_append q item)"

text \<open>
  \<^verbatim>\<open>put(item, block, timeout)\<close> from its entry; \<open>t0\<close> is the clock reading used for
  \<^verbatim>\<open>endtime\<close> and \<open>t1\<close> the one used for the first \<^verbatim>\<open>remaining\<close>.
\<close>

definition put ::
  "'a ThreadSafeQueue \<Rightarrow> 'a \<Rightarrow> bool \<Rightarrow> real option \<Rightarrow> real \<Rightarrow> real
     \<Rightarrow> unit result \<times> 'a ThreadSafeQueue" where
  "put q item block timeout t0 t1 =
     (if maxsize q > 0 then
        (if \<not> block then
           (if qsize q \<ge> maxsize q then (Raised QueueFull, q) else put_append q item)
         else (case timeout of
             None \<Rightarrow> put_wait_forever q item
           | Some d \<Rightarrow>
               if d < 0 then (Raised ValueError, q)
               else (let endtime = t0 + d in put_wait_until q item endtime t1)))
      else put_append q item)"

definition put_wakeup ::
  "'a ThreadSafeQueue \<Rightarrow> 'a \<Rightarrow> waiting \<Rightarrow> real \<Rightarrow> unit result \<times> 'a ThreadSafeQueue" where
  "put_wakeup q item w now =
     (case w of
        Wait_forever \<Rightarrow> put_wait_forever q item
      | Wait_until endtime \<Rightarrow> put_wait_until q item endtime now)"

text \<open>
  Lines 171-177 of \<^verbatim>\<open>get\<close>: \<^verbatim>\<open>popleft\<close> raises \<^verbatim>\<open>IndexError\<close> on an empty deque.
\<close>

definition get_popleft :: "'a ThreadSafeQueue \<Rightarrow> 'a result \<times> 'a ThreadSafeQueue" where
  "get_popleft q =
     (case queue_items q of
        [] \<Rightarrow> (Raised IndexError, q)
      | item # rest \<Rightarrow> (Returned item, q\<lparr>queue_items := rest\<rparr>))"

definition get_wait_forever :: "'a ThreadSafeQueue \<Rightarrow> 'a result \<times> 'a ThreadSafeQueue" where
  "get_wait_forever q =
     (if \<not> (qsize q \<noteq> 0) then (Suspended Wait_forever, q) else get_popleft q)"

definition get_wait_until ::
  "'a ThreadSafeQueue \<Rightarrow> real \<Rightarrow> real \<Rightarrow> 'a result \<times> 'a ThreadSafeQueue" where
  "get_wait_until q endtime now =
     (if \<not> (qsize q \<noteq> 0) then
        (let remaining = endtime - now in
         if remaining \<le> 0 then (Raised QueueEmpty, q)
         else (Suspended (Wait_until endtime), q))
      else get_popleft q)"

definition get ::
  "'a ThreadSafeQueue \<Rightarrow> bool \<Rightarrow> real option \<Rightarrow> real \<Rightarrow> real
     \<Rightarrow> 'a result \<times> 'a ThreadSafeQueue" where
  "get q block timeout t0 t1 =
     (if \<not> block then
        (if \<not> (qsize q \<noteq> 0) then (Raised QueueEmpty, q) else get_popleft q)
      else (case timeout of
          None \<Rightarrow> get_wait_forever q
        | Some d \<Rightarrow>
            if d < 0 then (Raised ValueError, q)
            else (let endtime = t0 + d in get_wait_until q endtime t1)))"

definition get_wakeup ::
  "'a ThreadSafeQueue \<Rightarrow> waiting \<Rightarrow> real \<Rightarrow> 'a result \<times> 'a ThreadSafeQueue" where
  "get_wakeup q w now =
     (case w of
        Wait_forever \<Rightarrow> get_wait_forever q
      | Wait_until endtime \<Rightarrow> get_wait_until q endtime now)"

subsection \<open>Interleavings\<close>

text \<open>
  What the threads sharing one queue do to it is a sequence of events, one per critical
  section, in the order in which the lock was taken: a thread enters \<^verbatim>\<open>put\<close> or
  \<^verbatim>\<open>get\<close>, or a thread suspended inside one of them wakes up. Any suspended state may
  be named by a wake-up event, so every schedule of every number of threads is among the
  event sequences. Beside the queue the run keeps two logs: the items whose \<^verbatim>\<open>put\<close>
  returned and the items \<^verbatim>\<open>get\<close> returned, each in the order of the returns.
\<close>

datatype 'a event =
    Put_call 'a bool "real option" real real
  | Put_wakeup 'a waiting real
  | Get_call bool "real option" real real
  | Get_wakeup waiting real

record 'a run_state =
  shared :: "'a ThreadSafeQueue"
  inserted :: "'a list"
  removed :: "'a list"

definition after_put :: "'a run_state \<Rightarrow> 'a \<Rightarrow> unit result \<times> 'a ThreadSafeQueue \<Rightarrow> 'a run_state" where
  "after_put s item r =
     (case fst r of
        Returned u \<Rightarrow> s\<lparr>shared := snd r, inserted := inserted s @ [item]\<rparr>
      | Raised e \<Rightarrow> s\<lparr>shared := snd r\<rparr>
      | Suspended w \<Rightarrow> s\<lparr>shared := snd r\<rparr>)"

definition after_get :: "'a run_state \<Rightarrow> 'a result \<times> 'a ThreadSafeQueue \<Rightarrow> 'a run_state" where
  "after_get s r =
     (case fst r of
        Returned item \<Rightarrow> s\<lparr>shared := snd r, removed := removed s @ [item]\<rparr>
      | Raised e \<Rightarrow> s\<lparr>shared := snd r\<rparr>
      | Suspended w \<Rightarrow> s\<lparr>shared := snd r\<rparr>)"

fun step :: "'a run_state \<Rightarrow> 'a event \<Rightarrow> 'a run_state" where
  "step s (Put_call item block timeout t0 t1) =
     after_put s item (put (shared s) item block timeout t0 t1)"
| "step s (Put_wakeup item w now) = after_put s item (put_wakeup (shared s) item w now)"
| "step s (Get_call block timeout t0 t1) = after_get s (get (shared s) block timeout t0 t1)"
| "step s (Get_wakeup w now) = after_get s (get_wakeup (shared s) w now)"

definition start_state :: "int \<Rightarrow> 'a run_state" where
  "start_state k = \<lparr>shared = new_queue k, inserted = [], removed = []\<rparr>"

definition exec :: "int \<Rightarrow> 'a event list \<Rightarrow> 'a run_state" where
  "exec k evs = foldl step (start_state k) evs"

subsection \<open>Schedules of one producer and one consumer\<close>

text \<open>
  Three ways in which one producer and one consumer can pass the items \<open>xs\<close> through the
  queue. In \<open>put_all\<close> followed by \<open>get_times\<close> the producer inserts everything before
  the consumer starts. In \<open>consumer_ahead\<close> the consumer is always first: its blocking
  \<^verbatim>\<open>get\<close> finds the queue empty and waits, the producer puts the item, and the consumer
  is woken. In \<open>producer_ahead\<close>, on a queue of capacity one, the producer is always
  first: its blocking \<^verbatim>\<open>put\<close> finds the queue full and waits, the consumer gets the
  item before, and the producer is woken. \<open>valid_timeout\<close> says that a blocking call has
  no negative timeout, \<open>still_waiting\<close> that the deadline of a call has not passed when
  it first computes \<^verbatim>\<open>remaining\<close>, and \<open>suspended_as\<close> is what such a call remembers
  while it waits.
\<close>

definition valid_timeout :: "bool \<Rightarrow> real option \<Rightarrow> bool" where
  "valid_timeout block timeout =
     (case timeout of None \<Rightarrow> True | Some d \<Rightarrow> \<not> block \<or> 0 \<le> d)"

definition still_waiting :: "real option \<Rightarrow> real \<Rightarrow> real \<Rightarrow> bool" where
  "still_waiting timeout t0 t1 =
     (case timeout of None \<Rightarrow> True | Some d \<Rightarrow> 0 \<le> d \<and> t1 < t0 + d)"

definition suspended_as :: "real option \<Rightarrow> real \<Rightarrow> waiting" where
  "suspended_as timeout t0 =
     (case timeout of None \<Rightarrow> Wait_forever | Some d \<Rightarrow> Wait_until (t0 + d))"

definition put_all :: "bool \<Rightarrow> real option \<Rightarrow> real \<Rightarrow> real \<Rightarrow> 'a list \<Rightarrow> 'a event list" where
  "put_all block timeout t0 t1 xs = map (\<lambda>x. Put_call x block timeout t0 t1) xs"

definition get_times :: "bool \<Rightarrow> real option \<Rightarrow> real \<Rightarrow> real \<Rightarrow> nat \<Rightarrow> 'a event list" where
  "get_times block timeout t0 t1 n = replicate n (Get_call block timeout t0 t1)"

definition consumer_ahead ::
  "real option \<Rightarrow> bool \<Rightarrow> real option \<Rightarrow> real \<Rightarrow> real \<Rightarrow> real \<Rightarrow> 'a list \<Rightarrow> 'a event list" where
  "consumer_ahead gt pb pt t0 t1 now xs =
     concat (map (\<lambda>x. [Get_call True gt t0 t1, Put_call x pb pt t0 t1,
                        Get_wakeup (suspended_as gt t0) now]) xs)"

definition producer_ahead ::
  "real option \<Rightarrow> bool \<Rightarrow> real option \<Rightarrow> real \<Rightarrow> real \<Rightarrow> real \<Rightarrow> 'a list \<Rightarrow> 'a event list" where
  "producer_ahead pt gb gt t0 t1 now xs =
     (case xs of
        [] \<Rightarrow> []
      | x0 # rest \<Rightarrow>
          Put_call x0 True pt t0 t1
          # concat (map (\<lambda>x. [Put_call x True pt t0 t1, Get_call gb gt t0 t1,
                               Put_wakeup x (suspended_as pt t0) now]) rest)
          @ [Get_call gb gt t0 t1])"

section \<open>Configuration and metrics\<close>

text \<open>
  \<^verbatim>\<open>config.py\<close>. Fields that several classes name alike get the prefix of their class.
  Python's truth test of a float is \<open>x \<noteq> 0\<close>.
\<close>

record ProducerConfig =
  p_name :: string
  put_timeout :: "real option"
  p_delay_between_items :: real
  p_stop_on_error :: bool

record ConsumerConfig =
  c_name :: string
  get_timeout :: "real option"
  c_delay_between_items :: real
  c_stop_on_error :: bool

record CoordinatorConfig =
  co_name :: string
  join_timeout :: "real option"
  shutdown_grace_period :: real

record SystemMetrics =
  items_produced :: int
  items_consumed :: int
  producer_errors :: int
  consumer_errors :: int
  start_time :: real
  end_time :: real
  execution_duration :: real

definition new_metrics :: SystemMetrics where
  "new_metrics =
     \<lparr>items_produced = 0, items_consumed = 0, producer_errors = 0, consumer_errors = 0,
      start_time = 0, end_time = 0, execution_duration = 0\<rparr>"

definition calculate_duration :: "SystemMetrics \<Rightarrow> SystemMetrics" where
  "calculate_duration m =
     (if start_time m \<noteq> 0 \<and> end_time m \<noteq> 0
      then m\<lparr>execution_duration := end_time m - start_time m\<rparr>
      else m)"

section \<open>Producer\<close>

text \<open>
  \<^verbatim>\<open>producer.py\<close>. A producer talks to its queue through \<^verbatim>\<open>QueueProtocol\<close> only, so
  the queue is its environment: the model records every call the producer makes on the
  queue and is told whether that call raised. The environment also says before which
  iterations another thread has called \<^verbatim>\<open>stop\<close>. Logging and \<^verbatim>\<open>time.sleep\<close> change
  none of the modelled data and are left out.
\<close>

datatype thread = Thread string

datatype 'a queue_call = Call_put 'a bool "real option" | Call_get bool "real option"

record 'a Producer =
  p_config :: ProducerConfig
  source :: "'a list"
  p_sentinel :: 'a
  p_items_produced :: int
  p_errors_encountered :: int
  p_is_running :: bool
  p_thread :: "thread option"

record producer_env =
  stop_requested :: "nat \<Rightarrow> bool"
  put_raises :: "nat \<Rightarrow> exn option"
  sentinel_raises :: "exn option"

datatype loop_exit = Exhausted | Stopped_early | Failed exn

definition new_producer :: "ProducerConfig \<Rightarrow> 'a list \<Rightarrow> 'a \<Rightarrow> 'a Producer" where
  "new_producer cfg src sentinel =
     \<lparr>p_config = cfg, source = src, p_sentinel = sentinel, p_items_produced = 0,
      p_errors_encountered = 0, p_is_running = False, p_thread = None\<rparr>"

definition producer_start :: "'a Producer \<Rightarrow> exn + 'a Producer" where
  "producer_start p =
     (if p_is_running p then Inl (ProducerError ''is already running'')
      else Inr (p\<lparr>p_thread := Some (Thread (p_name (p_config p))), p_is_running := True\<rparr>))"

text \<open>
  \<^verbatim>\<open>join\<close>: \<open>alive\<close> is what \<^verbatim>\<open>is_alive()\<close> answers once \<^verbatim>\<open>Thread.join(timeout)\<close> is back.
\<close>

definition producer_join :: "'a Producer \<Rightarrow> real option \<Rightarrow> bool \<Rightarrow> bool" where
  "producer_join p timeout alive =
     (case p_thread p of None \<Rightarrow> True | Some t \<Rightarrow> (let completed = \<not> alive in completed))"

definition producer_stop :: "'a Producer \<Rightarrow> 'a Producer" where
  "producer_stop p = p\<lparr>p_is_running := False\<rparr>"

definition produce_item :: "'a Producer \<Rightarrow> 'a \<Rightarrow> exn option \<Rightarrow> 'a queue_call \<times> (exn + 'a Producer)" where
  "produce_item p item raised =
     (Call_put item True (put_timeout (p_config p)),
      case raised of
        None \<Rightarrow> Inr (p\<lparr>p_items_produced := p_items_produced p + 1\<rparr>)
      | Some e \<Rightarrow> Inl e)"

definition send_sentinel :: "'a Producer \<Rightarrow> exn option \<Rightarrow> 'a queue_call \<times> (exn + unit)" where
  "send_sentinel p raised =
     (Call_put (p_sentinel p) True None,
      case raised of
        None \<Rightarrow> Inr ()
      | Some e \<Rightarrow> Inl (ProducerError ''Failed to send sentinel''))"

text \<open>
  The \<^verbatim>\<open>for\<close> loop of \<^verbatim>\<open>_run\<close> from iteration \<open>i\<close> on, over the items still to come.
\<close>

fun produce_loop ::
  "producer_env \<Rightarrow> nat \<Rightarrow> 'a list \<Rightarrow> 'a Producer \<Rightarrow> 'a queue_call list
     \<Rightarrow> 'a Producer \<times> 'a queue_call list \<times> loop_exit" where
  "produce_loop env i [] p calls = (p, calls, Exhausted)"
| "produce_loop env i (item # rest) p calls =
     (let p0 = (if stop_requested env i then producer_stop p else p) in
      if \<not> p_is_running p0 then (p0, calls, Stopped_early)
      else (case produce_item p0 item (put_raises env i) of
          (c, Inr p1) \<Rightarrow> produce_loop env (Suc i) rest p1 (calls @ [c])
        | (c, Inl e) \<Rightarrow>
            (let p1 = p0\<lparr>p_errors_encountered := p_errors_encountered p0 + 1\<rparr> in
             if p_stop_on_error (p_config p1)
             then (p1, calls @ [c], Failed (ProducerError ''Producer stopped due to error''))
             else produce_loop env (Suc i) rest p1 (calls @ [c]))))"

text \<open>
  \<^verbatim>\<open>_run\<close>: the final producer, the calls made on the queue in order, and the exception
  that leaves the thread, if any. The \<^verbatim>\<open>finally\<close> clause clears the running flag.
\<close>

definition producer_run ::
  "producer_env \<Rightarrow> 'a Producer \<Rightarrow> 'a Producer \<times> 'a queue_call list \<times> exn option" where
  "producer_run env p =
     (case produce_loop env 0 (source p) p [] of
        (p1, calls, Failed e) \<Rightarrow> (p1\<lparr>p_is_running := False\<rparr>, calls, Some e)
      | (p1, calls, ex) \<Rightarrow>
          (case send_sentinel p1 (sentinel_raises env) of
             (c, Inr u) \<Rightarrow> (p1\<lparr>p_is_running := False\<rparr>, calls @ [c], None)
           | (c, Inl e) \<Rightarrow> (p1\<lparr>p_is_running := False\<rparr>, calls @ [c], Some e)))"

section \<open>Consumer\<close>

text \<open>
  \<^verbatim>\<open>consumer.py\<close>. Items are object references, so \<^verbatim>\<open>item is self.sentinel\<close> is
  equality of references. The destination is whatever object the caller hands over; the
  consumer only calls its \<^verbatim>\<open>append\<close>, which is therefore a parameter \<open>app\<close> that may
  raise. \<open>list_append\<close> is \<^verbatim>\<open>append\<close> of a Python list.
\<close>

record ('a, 'd) Consumer =
  c_config :: ConsumerConfig
  destination :: 'd
  c_sentinel :: 'a
  c_items_consumed :: int
  c_errors_encountered :: int
  c_is_running :: bool
  c_thread :: "thread option"

datatype control = Continue | Break | Propagate exn

datatype run_status = Completed | Crashed exn | Still_looping

definition new_consumer :: "ConsumerConfig \<Rightarrow> 'd \<Rightarrow> 'a \<Rightarrow> ('a, 'd) Consumer" where
  "new_consumer cfg dest sentinel =
     \<lparr>c_config = cfg, destination = dest, c_sentinel = sentinel, c_items_consumed = 0,
      c_errors_encountered = 0, c_is_running = False, c_thread = None\<rparr>"

definition list_append :: "'a list \<Rightarrow> 'a \<Rightarrow> exn + 'a list" where
  "list_append xs x = Inr (xs @ [x])"

definition consumer_start :: "('a, 'd) Consumer \<Rightarrow> exn + ('a, 'd) Consumer" where
  "consumer_start c =
     (if c_is_running c then Inl (ConsumerError ''is already running'')
      else Inr (c\<lparr>c_thread := Some (Thread (c_name (c_config c))), c_is_running := True\<rparr>))"

definition consumer_join :: "('a, 'd) Consumer \<Rightarrow> real option \<Rightarrow> bool \<Rightarrow> bool" where
  "consumer_join c timeout alive =
     (case c_thread c of None \<Rightarrow> True | Some t \<Rightarrow> (let completed = \<not> alive in completed))"

definition consumer_stop :: "('a, 'd) Consumer \<Rightarrow> ('a, 'd) Consumer" where
  "consumer_stop c = c\<lparr>c_is_running := False\<rparr>"

definition consume_item ::
  "('d \<Rightarrow> 'a \<Rightarrow> exn + 'd) \<Rightarrow> ('a, 'd) Consumer \<Rightarrow> 'a \<Rightarrow> exn + ('a, 'd) Consumer" where
  "consume_item app c item =
     (case app (destination c) item of
        Inl e \<Rightarrow> Inl e
      | Inr d \<Rightarrow> Inr (c\<lparr>destination := d, c_items_consumed := c_items_consumed c + 1\<rparr>))"

text \<open>The handler \<^verbatim>\<open>except Exception\<close> of the loop body.\<close>

definition consumer_on_error :: "('a, 'd) Consumer \<Rightarrow> exn \<Rightarrow> ('a, 'd) Consumer \<times> control" where
  "consumer_on_error c e =
     (let c1 = c\<lparr>c_errors_encountered := c_errors_encountered c + 1\<rparr> in
      if c_stop_on_error (c_config c1)
      then (c1, Propagate (ConsumerError ''Consumer stopped due to error''))
      else (c1, Continue))"

text \<open>
  The \<^verbatim>\<open>try\<close> block of one pass through the body of \<^verbatim>\<open>while self._is_running\<close>;
  \<open>got\<close> is the outcome of \<^verbatim>\<open>self.queue.get(block=True, timeout=self.config.get_timeout)\<close>.
  An exception of the \<^verbatim>\<open>get\<close> or of \<^verbatim>\<open>_consume_item\<close> leaves the block.
\<close>

definition consumer_try ::
  "('d \<Rightarrow> 'a \<Rightarrow> exn + 'd) \<Rightarrow> ('a, 'd) Consumer \<Rightarrow> exn + 'a
     \<Rightarrow> exn + ('a, 'd) Consumer \<times> control" where
  "consumer_try app c got =
     (case got of
        Inl e \<Rightarrow> Inl e
      | Inr item \<Rightarrow>
          if item = c_sentinel c then Inr (c, Break)
          else (case consume_item app c item of
                  Inl e \<Rightarrow> Inl e
                | Inr c1 \<Rightarrow> Inr (c1, Continue)))"

text \<open>
  The whole pass: the \<^verbatim>\<open>try\<close> block with its two handlers, \<^verbatim>\<open>except QueueEmpty\<close>
  first and \<^verbatim>\<open>except Exception\<close> second, and the call made on the queue.
\<close>

definition consumer_iteration ::
  "('d \<Rightarrow> 'a \<Rightarrow> exn + 'd) \<Rightarrow> ('a, 'd) Consumer \<Rightarrow> exn + 'a
     \<Rightarrow> 'a queue_call \<times> ('a, 'd) Consumer \<times> control" where
  "consumer_iteration app c got =
     (Call_get True (get_timeout (c_config c)),
      case consumer_try app c got of
        Inr r \<Rightarrow> r
      | Inl e \<Rightarrow>
          if e = QueueEmpty then (c, Continue)
          else consumer_on_error c e)"

text \<open>
  The \<^verbatim>\<open>while\<close> loop against a finite list of observations, one per pass: whether
  \<^verbatim>\<open>stop\<close> was called before the flag is tested, and the outcome of the \<^verbatim>\<open>get\<close>. When
  the observations run out the thread is still inside the loop.
\<close>

fun consume_loop ::
  "('d \<Rightarrow> 'a \<Rightarrow> exn + 'd) \<Rightarrow> (bool \<times> (exn + 'a)) list \<Rightarrow> ('a, 'd) Consumer
     \<Rightarrow> ('a, 'd) Consumer \<times> run_status" where
  "consume_loop app [] c = (c, Still_looping)"
| "consume_loop app ((stop_req, got) # rest) c =
     (let c0 = (if stop_req then consumer_stop c else c) in
      if \<not> c_is_running c0 then (c0, Completed)
      else (case snd (consumer_iteration app c0 got) of
          (c1, Continue) \<Rightarrow> consume_loop app rest c1
        | (c1, Break) \<Rightarrow> (c1, Completed)
        | (c1, Propagate e) \<Rightarrow> (c1, Crashed e)))"

definition consumer_run ::
  "('d \<Rightarrow> 'a \<Rightarrow> exn + 'd) \<Rightarrow> (bool \<times> (exn + 'a)) list \<Rightarrow> ('a, 'd) Consumer
     \<Rightarrow> ('a, 'd) Consumer \<times> run_status" where
  "consumer_run app obs c =
     (case consume_loop app obs c of
        (c1, Still_looping) \<Rightarrow> (c1, Still_looping)
      | (c1, st) \<Rightarrow> (c1\<lparr>c_is_running := False\<rparr>, st))"

section \<open>Coordinator\<close>

text \<open>
  \<^verbatim>\<open>coordinator.py\<close>. The worker threads are the environment of \<^verbatim>\<open>run\<close>: it supplies
  the two clock readings and, for every worker, the state its thread has left it in when
  the coordinator has finished joining. The value \<^verbatim>\<open>join\<close> returns is only logged.
\<close>

record ('a, 'd) Coordinator =
  co_config :: CoordinatorConfig
  producers :: "'a Producer list"
  consumers :: "('a, 'd) Consumer list"
  metrics :: SystemMetrics

record ('a, 'd) run_env =
  clock_start :: real
  clock_end :: real
  producer_thread :: "'a Producer \<Rightarrow> 'a Producer"
  consumer_thread :: "('a, 'd) Consumer \<Rightarrow> ('a, 'd) Consumer"

definition new_coordinator ::
  "CoordinatorConfig \<Rightarrow> 'a Producer list \<Rightarrow> ('a, 'd) Consumer list \<Rightarrow> ('a, 'd) Coordinator" where
  "new_coordinator cfg ps cs =
     \<lparr>co_config = cfg, producers = ps, consumers = cs, metrics = new_metrics\<rparr>"

definition add_producer ::
  "('a, 'd) Coordinator \<Rightarrow> 'a Producer \<Rightarrow> exn + ('a, 'd) Coordinator" where
  "add_producer co producer =
     (if list_ex p_is_running (producers co)
      then Inl (CoordinatorError ''Cannot add producer while system is running'')
      else Inr (co\<lparr>producers := producers co @ [producer]\<rparr>))"

definition add_consumer ::
  "('a, 'd) Coordinator \<Rightarrow> ('a, 'd) Consumer \<Rightarrow> exn + ('a, 'd) Coordinator" where
  "add_consumer co consumer =
     (if list_ex c_is_running (consumers co)
      then Inl (CoordinatorError ''Cannot add consumer while system is running'')
      else Inr (co\<lparr>consumers := consumers co @ [consumer]\<rparr>))"

fun start_consumers :: "('a, 'd) Consumer list \<Rightarrow> exn option \<times> ('a, 'd) Consumer list" where
  "start_consumers [] = (None, [])"
| "start_consumers (c # cs) =
     (case consumer_start c of
        Inl e \<Rightarrow> (Some e, c # cs)
      | Inr c1 \<Rightarrow> (case start_consumers cs of (r, cs1) \<Rightarrow> (r, c1 # cs1)))"

fun start_producers :: "'a Producer list \<Rightarrow> exn option \<times> 'a Producer list" where
  "start_producers [] = (None, [])"
| "start_producers (p # ps) =
     (case producer_start p of
        Inl e \<Rightarrow> (Some e, p # ps)
      | Inr p1 \<Rightarrow> (case start_producers ps of (r, ps1) \<Rightarrow> (r, p1 # ps1)))"

definition threads_ran :: "('a, 'd) run_env \<Rightarrow> ('a, 'd) Coordinator \<Rightarrow> ('a, 'd) Coordinator" where
  "threads_ran env co =
     co\<lparr>producers := map (producer_thread env) (producers co),
        consumers := map (consumer_thread env) (consumers co)\<rparr>"

definition wait_for_completion :: "('a, 'd) Coordinator \<Rightarrow> exn + unit" where
  "wait_for_completion co =
     (let still_running =
            map (\<lambda>p. p_name (p_config p)) (filter p_is_running (producers co))
            @ map (\<lambda>c. c_name (c_config c)) (filter c_is_running (consumers co))
      in if still_running \<noteq> []
         then Inl (CoordinatorError ''Threads still running after timeout'')
         else Inr ())"

definition collect_metrics :: "('a, 'd) Coordinator \<Rightarrow> ('a, 'd) Coordinator" where
  "collect_metrics co =
     co\<lparr>metrics := (metrics co)
        \<lparr>items_produced := sum_list (map p_items_produced (producers co)),
         items_consumed := sum_list (map c_items_consumed (consumers co)),
         producer_errors := sum_list (map p_errors_encountered (producers co)),
         consumer_errors := sum_list (map c_errors_encountered (consumers co))\<rparr>\<rparr>"

definition emergency_shutdown :: "('a, 'd) Coordinator \<Rightarrow> ('a, 'd) Coordinator" where
  "emergency_shutdown co =
     co\<lparr>producers := map producer_stop (producers co),
        consumers := map consumer_stop (consumers co)\<rparr>"

definition run_failed :: "('a, 'd) Coordinator \<Rightarrow> (exn + SystemMetrics) \<times> ('a, 'd) Coordinator" where
  "run_failed co = (Inl (CoordinatorError ''Coordinator failed''), emergency_shutdown co)"

definition coordinator_run ::
  "('a, 'd) run_env \<Rightarrow> ('a, 'd) Coordinator
     \<Rightarrow> (exn + SystemMetrics) \<times> ('a, 'd) Coordinator" where
  "coordinator_run env co =
     (if list_ex p_is_running (producers co) \<or> list_ex c_is_running (consumers co)
      then (Inl (CoordinatorError ''is already running''), co)
      else if producers co = []
      then (Inl (CoordinatorError ''Cannot run: no producers configured''), co)
      else if consumers co = []
      then (Inl (CoordinatorError ''Cannot run: no consumers configured''), co)
      else
        (let co1 = co\<lparr>metrics := (metrics co)\<lparr>start_time := clock_start env\<rparr>\<rparr> in
         case start_consumers (consumers co1) of
           (Some e, cs) \<Rightarrow> run_failed (co1\<lparr>consumers := cs\<rparr>)
         | (None, cs) \<Rightarrow>
             (let co2 = co1\<lparr>consumers := cs\<rparr> in
              case start_producers (producers co2) of
                (Some e, ps) \<Rightarrow> run_failed (co2\<lparr>producers := ps\<rparr>)
              | (None, ps) \<Rightarrow>
                  (let co3 = threads_ran env (co2\<lparr>producers := ps\<rparr>) in
                   case wait_for_completion co3 of
                     Inl e \<Rightarrow> run_failed co3
                   | Inr u \<Rightarrow>
                       (let co4 = co3\<lparr>metrics :=
                                    calculate_duration ((metrics co3)\<lparr>end_time := clock_end env\<rparr>)\<rparr>;
                            co5 = collect_metrics co4
                        in (Inr (metrics co5), co5))))))"

definition coordinator_reset :: "('a, 'd) Coordinator \<Rightarrow> exn + ('a, 'd) Coordinator" where
  "coordinator_reset co =
     (if list_ex p_is_running (producers co) \<or> list_ex c_is_running (consumers co)
      then Inl (CoordinatorError ''Cannot reset while threads are running'')
      else Inr (co\<lparr>metrics := new_metrics\<rparr>))"

section \<open>Example values\<close>

text \<open>Concrete workers, environments and schedules on which the theorems are instantiated.\<close>

definition example_producer_config :: ProducerConfig where
  "example_producer_config =
     \<lparr>p_name = ''P1'', put_timeout = Some 1, p_delay_between_items = 0, p_stop_on_error = True\<rparr>"

definition example_consumer_config :: ConsumerConfig where
  "example_consumer_config =
     \<lparr>c_name = ''C1'', get_timeout = Some 1, c_delay_between_items = 0, c_stop_on_error = True\<rparr>"

definition example_coordinator_config :: CoordinatorConfig where
  "example_coordinator_config =
     \<lparr>co_name = ''Coordinator'', join_timeout = Some 30, shutdown_grace_period = 5\<rparr>"

definition example_producer :: "nat Producer" where
  "example_producer = new_producer example_producer_config [1, 2, 3] 0"

definition example_consumer :: "(nat, nat list) Consumer" where
  "example_consumer = new_consumer example_consumer_config [] 0"

text \<open>A queue that accepts every item at once, while nobody calls \<^verbatim>\<open>stop\<close>.\<close>

definition quiet_queue :: producer_env where
  "quiet_queue = \<lparr>stop_requested = (\<lambda>i. False), put_raises = (\<lambda>i. None), sentinel_raises = None\<rparr>"

text \<open>The same, with \<^verbatim>\<open>stop\<close> called before iteration \<open>n\<close>.\<close>

definition stop_at :: "nat \<Rightarrow> producer_env" where
  "stop_at n = \<lparr>stop_requested = (\<lambda>i. n \<le> i), put_raises = (\<lambda>i. None), sentinel_raises = None\<rparr>"

text \<open>A queue whose \<^verbatim>\<open>put\<close> times out with \<^verbatim>\<open>QueueFull\<close> in iteration \<open>n\<close>.\<close>

definition full_at :: "nat \<Rightarrow> producer_env" where
  "full_at n =
     \<lparr>stop_requested = (\<lambda>i. False),
      put_raises = (\<lambda>i. if i = n then Some QueueFull else None),
      sentinel_raises = None\<rparr>"

text \<open>
  A run in which the producer thread delivers its three items and the sentinel, and the
  consumer thread receives them, between the clock readings \<open>t0\<close> and \<open>t1\<close>.
\<close>

definition example_env :: "real \<Rightarrow> real \<Rightarrow> (nat, nat list) run_env" where
  "example_env t0 t1 =
     \<lparr>clock_start = t0, clock_end = t1,
      producer_thread = (\<lambda>p. fst (producer_run quiet_queue p)),
      consumer_thread =
        (\<lambda>c. fst (consumer_run list_append
                    [(False, Inr 1), (False, Inr 2), (False, Inl QueueEmpty), (False, Inr 3),
                     (False, Inr 0)] c))\<rparr>"

definition example_coordinator :: "(nat, nat list) Coordinator" where
  "example_coordinator =
     new_coordinator example_coordinator_config [example_producer] [example_consumer]"

text \<open>
  Three blocking puts on a queue of capacity two, the third of which has to wait for a
  \<^verbatim>\<open>get\<close>, followed by the two remaining gets.
\<close>

definition example_schedule :: "nat event list" where
  "example_schedule =
     [Put_call 1 True None 0 0, Put_call 2 True None 0 0, Put_call 3 True None 0 0,
      Get_call True (Some 1) 0 0, Put_wakeup 3 Wait_forever 0,
      Get_call False None 0 0, Get_call True None 0 0]"

section \<open>Properties of the queue\<close>

subsection \<open>What one critical section can do\<close>

lemma put_cases:
  "(\<exists>r. put q item block timeout t0 t1 = (r, q) \<and> r \<noteq> Returned ())
   \<or> (put q item block timeout t0 t1 = put_append q item
       \<and> (0 < maxsize q \<longrightarrow> qsize q < maxsize q))"
  by (auto simp: put_def put_wait_forever_def put_wait_until_def Let_def
           split: option.splits)

lemma put_wakeup_cases:
  "(\<exists>r. put_wakeup q item w now = (r, q) \<and> r \<noteq> Returned ())
   \<or> (put_wakeup q item w now = put_append q item \<and> qsize q < maxsize q)"
  by (auto simp: put_wakeup_def put_wait_forever_def put_wait_until_def Let_def
           split: waiting.splits)

lemma get_popleft_cases:
  "(queue_items q = [] \<and> get_popleft q = (Raised IndexError, q))
   \<or> (\<exists>item rest. queue_items q = item # rest
        \<and> get_popleft q = (Returned item, q\<lparr>queue_items := rest\<rparr>))"
  by (cases "queue_items q") (simp_all add: get_popleft_def)

lemma get_cases:
  "(\<exists>r. get q block timeout t0 t1 = (r, q) \<and> (\<forall>x. r \<noteq> Returned x))
   \<or> (\<exists>item rest. queue_items q = item # rest
        \<and> get q block timeout t0 t1 = (Returned item, q\<lparr>queue_items := rest\<rparr>))"
  using get_popleft_cases [of q]
  by (auto simp: get_def get_wait_forever_def get_wait_until_def Let_def qsize_def
           split: option.splits)

lemma get_wakeup_cases:
  "(\<exists>r. get_wakeup q w now = (r, q) \<and> (\<forall>x. r \<noteq> Returned x))
   \<or> (\<exists>item rest. queue_items q = item # rest
        \<and> get_wakeup q w now = (Returned item, q\<lparr>queue_items := rest\<rparr>))"
  using get_popleft_cases [of q]
  by (auto simp: get_wakeup_def get_wait_forever_def get_wait_until_def Let_def qsize_def
           split: waiting.splits)

subsection \<open>First in, first out\<close>

text \<open>
  The items removed so far, followed by the items still queued, are the items the queue
  started with followed by the items inserted so far.
\<close>

lemma step_fifo:
  "removed s @ queue_items (shared s) = base @ inserted s
   \<Longrightarrow> removed (step s ev) @ queue_items (shared (step s ev)) = base @ inserted (step s ev)"
proof (cases ev)
  case (Put_call item block timeout t0 t1)
  assume inv: "removed s @ queue_items (shared s) = base @ inserted s"
  from put_cases [of "shared s" item block timeout t0 t1] inv Put_call
  show ?thesis
    by (auto simp: after_put_def put_append_def split: result.splits)
next
  case (Put_wakeup item w now)
  assume inv: "removed s @ queue_items (shared s) = base @ inserted s"
  from put_wakeup_cases [of "shared s" item w now] inv Put_wakeup
  show ?thesis
    by (auto simp: after_put_def put_append_def split: result.splits)
next
  case (Get_call block timeout t0 t1)
  assume inv: "removed s @ queue_items (shared s) = base @ inserted s"
  from get_cases [of "shared s" block timeout t0 t1] inv Get_call
  show ?thesis
    by (auto simp: after_get_def split: result.splits)
next
  case (Get_wakeup w now)
  assume inv: "removed s @ queue_items (shared s) = base @ inserted s"
  from get_wakeup_cases [of "shared s" w now] inv Get_wakeup
  show ?thesis
    by (auto simp: after_get_def split: result.splits)
qed

lemma foldl_step_fifo:
  "removed s @ queue_items (shared s) = base @ inserted s
   \<Longrightarrow> removed (foldl step s evs) @ queue_items (shared (foldl step s evs))
       = base @ inserted (foldl step s evs)"
  by (induction evs arbitrary: s) (simp_all add: step_fifo)

subsection \<open>Delivery\<close>

text \<open>
  A \<^verbatim>\<open>put\<close> that finds room appends its item and returns, whether it is entered or
  woken; a \<^verbatim>\<open>get\<close> that finds an item returns the head and removes it. On a full queue
  a blocking \<^verbatim>\<open>put\<close> waits, on an empty queue a blocking \<^verbatim>\<open>get\<close> waits. The three
  schedules therefore deliver every item.
\<close>

lemma put_with_room:
  "maxsize q \<le> 0 \<or> qsize q < maxsize q \<Longrightarrow> valid_timeout block timeout
   \<Longrightarrow> put q item block timeout t0 t1 = put_append q item"
  by (auto simp: put_def valid_timeout_def put_wait_forever_def put_wait_until_def
           split: option.splits)

lemma put_wakeup_with_room:
  "qsize q < maxsize q \<Longrightarrow> put_wakeup q item w now = put_append q item"
  by (simp add: put_wakeup_def put_wait_forever_def put_wait_until_def split: waiting.splits)

lemma put_when_full:
  "0 < maxsize q \<Longrightarrow> maxsize q \<le> qsize q \<Longrightarrow> still_waiting timeout t0 t1
   \<Longrightarrow> put q item True timeout t0 t1 = (Suspended (suspended_as timeout t0), q)"
  by (auto simp: put_def still_waiting_def suspended_as_def put_wait_forever_def
        put_wait_until_def split: option.splits)

lemma get_nonempty:
  "queue_items q = item # rest \<Longrightarrow> valid_timeout block timeout
   \<Longrightarrow> get q block timeout t0 t1 = (Returned item, q\<lparr>queue_items := rest\<rparr>)"
  by (auto simp: get_def valid_timeout_def get_wait_forever_def get_wait_until_def
        get_popleft_def qsize_def split: option.splits)

lemma get_wakeup_nonempty:
  "queue_items q = item # rest
   \<Longrightarrow> get_wakeup q w now = (Returned item, q\<lparr>queue_items := rest\<rparr>)"
  by (simp add: get_wakeup_def get_wait_forever_def get_wait_until_def get_popleft_def
        qsize_def split: waiting.splits)

lemma get_when_empty:
  "queue_items q = [] \<Longrightarrow> still_waiting timeout t0 t1
   \<Longrightarrow> get q True timeout t0 t1 = (Suspended (suspended_as timeout t0), q)"
  by (auto simp: get_def still_waiting_def suspended_as_def get_wait_forever_def
        get_wait_until_def qsize_def split: option.splits)

lemma run_put_all:
  "maxsize (shared s) \<le> 0 \<or> qsize (shared s) + int (length xs) \<le> maxsize (shared s)
   \<Longrightarrow> valid_timeout block timeout
   \<Longrightarrow> foldl step s (put_all block timeout t0 t1 xs)
       = s\<lparr>shared := (shared s)\<lparr>queue_items := queue_items (shared s) @ xs\<rparr>,
           inserted := inserted s @ xs\<rparr>"
proof (induction xs arbitrary: s)
  case Nil
  then show ?case by (simp add: put_all_def)
next
  case (Cons x xs)
  have room: "maxsize (shared s) \<le> 0 \<or> qsize (shared s) < maxsize (shared s)"
    using Cons.prems(1) by auto
  let ?s1 = "s\<lparr>shared := (shared s)\<lparr>queue_items := queue_items (shared s) @ [x]\<rparr>,
               inserted := inserted s @ [x]\<rparr>"
  have st: "step s (Put_call x block timeout t0 t1) = ?s1"
    by (simp add: put_with_room [OF room Cons.prems(2)] after_put_def put_append_def)
  have room1: "maxsize (shared ?s1) \<le> 0
      \<or> qsize (shared ?s1) + int (length xs) \<le> maxsize (shared ?s1)"
    using Cons.prems(1) by (auto simp: qsize_def)
  from Cons.IH [OF room1 Cons.prems(2)] st
  show ?case by (simp add: put_all_def)
qed

lemma run_get_times:
  "queue_items (shared s) = ys @ zs \<Longrightarrow> valid_timeout block timeout
   \<Longrightarrow> foldl step s (get_times block timeout t0 t1 (length ys))
       = s\<lparr>shared := (shared s)\<lparr>queue_items := zs\<rparr>, removed := removed s @ ys\<rparr>"
proof (induction ys arbitrary: s)
  case Nil
  then show ?case by (simp add: get_times_def)
next
  case (Cons y ys)
  let ?s1 = "s\<lparr>shared := (shared s)\<lparr>queue_items := ys @ zs\<rparr>, removed := removed s @ [y]\<rparr>"
  have q: "queue_items (shared s) = y # (ys @ zs)" using Cons.prems(1) by simp
  have st: "step s (Get_call block timeout t0 t1) = ?s1"
    by (simp add: get_nonempty [OF q Cons.prems(2)] after_get_def)
  have q1: "queue_items (shared ?s1) = ys @ zs" by simp
  from Cons.IH [OF q1 Cons.prems(2)] st
  show ?case by (simp add: get_times_def)
qed

lemma run_consumer_ahead:
  "queue_items (shared s) = [] \<Longrightarrow> still_waiting gt t0 t1 \<Longrightarrow> valid_timeout pb pt
   \<Longrightarrow> foldl step s (consumer_ahead gt pb pt t0 t1 now xs)
       = s\<lparr>inserted := inserted s @ xs, removed := removed s @ xs\<rparr>"
proof (induction xs arbitrary: s)
  case Nil
  then show ?case by (simp add: consumer_ahead_def)
next
  case (Cons x xs)
  have room: "maxsize (shared s) \<le> 0 \<or> qsize (shared s) < maxsize (shared s)"
    using Cons.prems(1) by (auto simp: qsize_def)
  have s1: "step s (Get_call True gt t0 t1) = s"
    by (simp add: get_when_empty [OF Cons.prems(1,2)] after_get_def)
  let ?s2 = "s\<lparr>shared := (shared s)\<lparr>queue_items := [x]\<rparr>, inserted := inserted s @ [x]\<rparr>"
  have s2: "step s (Put_call x pb pt t0 t1) = ?s2"
    using Cons.prems(1) put_with_room [OF room Cons.prems(3), of x t0 t1]
    by (simp add: after_put_def put_append_def)
  let ?s3 = "s\<lparr>inserted := inserted s @ [x], removed := removed s @ [x]\<rparr>"
  have q2: "queue_items (shared ?s2) = x # []" by simp
  have same_q: "(shared s)\<lparr>queue_items := []\<rparr> = shared s"
    using Cons.prems(1) by (metis ThreadSafeQueue.surjective ThreadSafeQueue.update_convs(1))
  have s3: "step ?s2 (Get_wakeup (suspended_as gt t0) now) = ?s3"
    using get_wakeup_nonempty [OF q2, of "suspended_as gt t0" now]
    by (simp add: after_get_def same_q)
  have q3: "queue_items (shared ?s3) = []" using Cons.prems(1) by simp
  from Cons.IH [OF q3 Cons.prems(2,3)] s1 s2 s3
  show ?case by (simp add: consumer_ahead_def)
qed

lemma run_producer_waits:
  "queue_items (shared s) = [y] \<Longrightarrow> maxsize (shared s) = 1
   \<Longrightarrow> still_waiting pt t0 t1 \<Longrightarrow> valid_timeout gb gt
   \<Longrightarrow> foldl step s
         (concat (map (\<lambda>x. [Put_call x True pt t0 t1, Get_call gb gt t0 t1,
                             Put_wakeup x (suspended_as pt t0) now]) xs))
       = s\<lparr>shared := (shared s)\<lparr>queue_items := [last (y # xs)]\<rparr>,
           inserted := inserted s @ xs, removed := removed s @ butlast (y # xs)\<rparr>"
proof (induction xs arbitrary: s y)
  case Nil
  have "(shared s)\<lparr>queue_items := [y]\<rparr> = shared s"
    using Nil(1) by (metis ThreadSafeQueue.surjective ThreadSafeQueue.update_convs(1))
  then show ?case by simp
next
  case (Cons x xs)
  have full: "0 < maxsize (shared s)" "maxsize (shared s) \<le> qsize (shared s)"
    using Cons.prems(1,2) by (simp_all add: qsize_def)
  have s1: "step s (Put_call x True pt t0 t1) = s"
    by (simp add: put_when_full [OF full Cons.prems(3)] after_put_def)
  let ?s2 = "s\<lparr>shared := (shared s)\<lparr>queue_items := []\<rparr>, removed := removed s @ [y]\<rparr>"
  have s2: "step s (Get_call gb gt t0 t1) = ?s2"
    by (simp add: get_nonempty [OF Cons.prems(1,4)] after_get_def)
  let ?s3 = "s\<lparr>shared := (shared s)\<lparr>queue_items := [x]\<rparr>, inserted := inserted s @ [x],
               removed := removed s @ [y]\<rparr>"
  have room: "qsize (shared ?s2) < maxsize (shared ?s2)"
    using Cons.prems(2) by (simp add: qsize_def)
  have s3: "step ?s2 (Put_wakeup x (suspended_as pt t0) now) = ?s3"
    using put_wakeup_with_room [OF room, of x "suspended_as pt t0" now]
    by (simp add: after_put_def put_append_def)
  have q3: "queue_items (shared ?s3) = [x]" and m3: "maxsize (shared ?s3) = 1"
    using Cons.prems(2) by simp_all
  from Cons.IH [OF q3 m3 Cons.prems(3,4)] s1 s2 s3
  show ?case by simp
qed

lemma run_producer_ahead:
  "still_waiting pt t0 t1 \<Longrightarrow> valid_timeout gb gt
   \<Longrightarrow> exec 1 (producer_ahead pt gb gt t0 t1 now xs)
       = \<lparr>shared = new_queue 1, inserted = xs, removed = xs\<rparr>"
proof (cases xs)
  case Nil
  then show ?thesis by (simp add: producer_ahead_def exec_def start_state_def)
next
  case (Cons x0 rest)
  assume w: "still_waiting pt t0 t1" and v: "valid_timeout gb gt"
  have vp: "valid_timeout True pt"
    using w by (auto simp: still_waiting_def valid_timeout_def split: option.splits)
  let ?s1 = "\<lparr>shared = \<lparr>queue_items = [x0], maxsize = 1\<rparr>, inserted = [x0], removed = []\<rparr>"
  have s1: "step (start_state 1) (Put_call x0 True pt t0 t1) = ?s1"
    by (simp add: start_state_def new_queue_def put_with_room [OF _ vp] qsize_def
          after_put_def put_append_def)
  have q1: "queue_items (shared ?s1) = [x0]" and m1: "maxsize (shared ?s1) = 1" by simp_all
  let ?s2 = "\<lparr>shared = \<lparr>queue_items = [last (x0 # rest)], maxsize = 1\<rparr>,
               inserted = x0 # rest, removed = butlast (x0 # rest)\<rparr>"
  have s2: "foldl step ?s1
         (concat (map (\<lambda>x. [Put_call x True pt t0 t1, Get_call gb gt t0 t1,
                             Put_wakeup x (suspended_as pt t0) now]) rest)) = ?s2"
    using run_producer_waits [OF q1 m1 w v, of now rest] by simp
  have q2: "queue_items (shared ?s2) = last (x0 # rest) # []" by simp
  have s3: "step ?s2 (Get_call gb gt t0 t1)
       = \<lparr>shared = new_queue 1, inserted = x0 # rest, removed = x0 # rest\<rparr>"
    using append_butlast_last_id [of "x0 # rest"] get_nonempty [OF q2 v, of t0 t1]
    by (simp add: after_get_def new_queue_def del: last.simps butlast.simps)
  from s1 s2 s3 Cons show ?thesis
    by (simp add: producer_ahead_def exec_def del: last.simps butlast.simps)
qed

text \<open>
  Claim C1. On a queue that starts empty, whatever the capacity and however the critical
  sections of the putting and the getting side interleave, the items \<^verbatim>\<open>get\<close> has
  returned followed by the items still queued are the items \<^verbatim>\<open>put\<close> has inserted, in
  the order of insertion; so once as many items have been removed as were inserted, the
  sequence of removed items equals the sequence of inserted items. And the items do
  arrive: when one producer puts the items \<open>xs\<close> and one consumer then gets as many
  (the queue unbounded or large enough), when the consumer waits for every item, and
  when the producer waits for room on a queue of capacity one, every \<^verbatim>\<open>put\<close> has
  inserted its item, the items removed are exactly \<open>xs\<close> in their order, and the queue
  is empty again.
\<close>

theorem fifo_order:
  fixes evs :: "'a event list" and xs :: "'a list"
  shows
  "removed (exec k evs) @ queue_items (shared (exec k evs)) = inserted (exec k evs)
   \<and> (length (removed (exec k evs)) = length (inserted (exec k evs))
        \<longrightarrow> removed (exec k evs) = inserted (exec k evs))
   \<and> ((k \<le> 0 \<or> int (length xs) \<le> k) \<and> valid_timeout pb pt \<and> valid_timeout gb gt
        \<longrightarrow> exec k (put_all pb pt t0 t1 xs @ get_times gb gt t0 t1 (length xs))
              = \<lparr>shared = new_queue k, inserted = xs, removed = xs\<rparr>)
   \<and> (still_waiting gt t0 t1 \<and> valid_timeout pb pt
        \<longrightarrow> exec k (consumer_ahead gt pb pt t0 t1 now xs)
              = \<lparr>shared = new_queue k, inserted = xs, removed = xs\<rparr>)
   \<and> (still_waiting pt t0 t1 \<and> valid_timeout gb gt
        \<longrightarrow> exec 1 (producer_ahead pt gb gt t0 t1 now xs)
              = \<lparr>shared = new_queue 1, inserted = xs, removed = xs\<rparr>)"
proof (intro conjI impI)
  have "removed (exec k evs) @ queue_items (shared (exec k evs)) = [] @ inserted (exec k evs)"
    unfolding exec_def by (rule foldl_step_fifo) (simp add: start_state_def new_queue_def)
  then show eq: "removed (exec k evs) @ queue_items (shared (exec k evs)) = inserted (exec k evs)"
    by simp
  assume l: "length (removed (exec k evs)) = length (inserted (exec k evs))"
  from eq have "length (removed (exec k evs)) + length (queue_items (shared (exec k evs)))
     = length (inserted (exec k evs))" by (metis length_append)
  with l have "queue_items (shared (exec k evs)) = []" by simp
  with eq show "removed (exec k evs) = inserted (exec k evs)" by simp
next
  assume h: "(k \<le> 0 \<or> int (length xs) \<le> k) \<and> valid_timeout pb pt \<and> valid_timeout gb gt"
  let ?s0 = "start_state k :: 'a run_state"
  let ?s1 = "\<lparr>shared = \<lparr>queue_items = xs, maxsize = k\<rparr>, inserted = xs, removed = []\<rparr>"
  have room: "maxsize (shared ?s0) \<le> 0
      \<or> qsize (shared ?s0) + int (length xs) \<le> maxsize (shared ?s0)"
    using h by (simp add: start_state_def new_queue_def qsize_def)
  have puts: "foldl step ?s0 (put_all pb pt t0 t1 xs) = ?s1"
    using run_put_all [OF room, of pb pt t0 t1] h
    by (simp add: start_state_def new_queue_def)
  have q: "queue_items (shared ?s1) = xs @ []" by simp
  have gets: "foldl step ?s1 (get_times gb gt t0 t1 (length xs))
      = \<lparr>shared = new_queue k, inserted = xs, removed = xs\<rparr>"
    using run_get_times [OF q, of gb gt t0 t1] h by (simp add: new_queue_def)
  from puts gets
  show "exec k (put_all pb pt t0 t1 xs @ get_times gb gt t0 t1 (length xs))
      = \<lparr>shared = new_queue k, inserted = xs, removed = xs\<rparr>"
    by (simp add: exec_def)
next
  assume h: "still_waiting gt t0 t1 \<and> valid_timeout pb pt"
  have q: "queue_items (shared (start_state k :: 'a run_state)) = []"
    by (simp add: start_state_def new_queue_def)
  from run_consumer_ahead [OF q, of gt t0 t1 pb pt now xs] h
  show "exec k (consumer_ahead gt pb pt t0 t1 now xs)
      = \<lparr>shared = new_queue k, inserted = xs, removed = xs\<rparr>"
    by (simp add: exec_def start_state_def)
next
  assume h: "still_waiting pt t0 t1 \<and> valid_timeout gb gt"
  then show "exec 1 (producer_ahead pt gb gt t0 t1 now xs)
      = \<lparr>shared = new_queue 1, inserted = xs, removed = xs\<rparr>"
    by (simp add: run_producer_ahead)
qed

lemma example_schedule_run:
  "exec 2 example_schedule
     = \<lparr>shared = \<lparr>queue_items = [], maxsize = 2\<rparr>, inserted = [1, 2, 3], removed = [1, 2, 3]\<rparr>"
  by (simp add: exec_def example_schedule_def start_state_def new_queue_def put_def get_def
        put_wakeup_def put_wait_forever_def get_wait_forever_def get_wait_until_def
        put_append_def get_popleft_def after_put_def after_get_def qsize_def)

theorem fifo_order_witness:
  "length (removed (exec 2 example_schedule)) = length (inserted (exec 2 example_schedule))
   \<and> removed (exec 2 example_schedule) = inserted (exec 2 example_schedule)
   \<and> inserted (exec 2 example_schedule) = [1, 2, 3]
   \<and> valid_timeout True (Some 1) \<and> valid_timeout False None \<and> still_waiting None 0 0
   \<and> still_waiting (Some 2) 10 11
   \<and> exec 0 (put_all True (Some 1) 10 11 [4, 5, 6::nat] @ get_times False None 10 11 3)
       = \<lparr>shared = new_queue 0, inserted = [4, 5, 6], removed = [4, 5, 6]\<rparr>
   \<and> exec 2 (consumer_ahead (Some 2) True (Some 1) 10 11 12 [4, 5, 6::nat])
       = \<lparr>shared = new_queue 2, inserted = [4, 5, 6], removed = [4, 5, 6]\<rparr>
   \<and> exec 1 (producer_ahead None False None 0 0 0 [4, 5, 6::nat])
       = \<lparr>shared = new_queue 1, inserted = [4, 5, 6], removed = [4, 5, 6]\<rparr>"
proof -
  have l: "length (removed (exec 2 example_schedule)) = length (inserted (exec 2 example_schedule))"
    by (simp add: example_schedule_run)
  have v: "valid_timeout True (Some 1)" "valid_timeout False None"
    by (simp_all add: valid_timeout_def)
  have w: "still_waiting None 0 0" "still_waiting (Some 2) 10 11"
    by (simp_all add: still_waiting_def)
  from fifo_order [of 2 example_schedule "[]"] l
  have a: "removed (exec 2 example_schedule) = inserted (exec 2 example_schedule)" by blast
  from fifo_order [of 0 "[]" "[4, 5, 6::nat]" True "Some 1" False None 10 11] v
  have b: "exec 0 (put_all True (Some 1) 10 11 [4, 5, 6::nat] @ get_times False None 10 11 3)
       = \<lparr>shared = new_queue 0, inserted = [4, 5, 6], removed = [4, 5, 6]\<rparr>"
    by (simp add: numeral_3_eq_3)
  from fifo_order [of 2 "[]" "[4, 5, 6::nat]" True "Some 1" False "Some 2" 10 11 12] v w
  have c: "exec 2 (consumer_ahead (Some 2) True (Some 1) 10 11 12 [4, 5, 6::nat])
       = \<lparr>shared = new_queue 2, inserted = [4, 5, 6], removed = [4, 5, 6]\<rparr>" by blast
  from fifo_order [of 1 "[]" "[4, 5, 6::nat]" True None False None 0 0 0] v w
  have d: "exec 1 (producer_ahead None False None 0 0 0 [4, 5, 6::nat])
       = \<lparr>shared = new_queue 1, inserted = [4, 5, 6], removed = [4, 5, 6]\<rparr>" by blast
  from l a b c d v w show ?thesis by (simp add: example_schedule_run)
qed

subsection \<open>The capacity bound\<close>

lemma step_bounded:
  "0 < maxsize (shared s) \<Longrightarrow> qsize (shared s) \<le> maxsize (shared s)
   \<Longrightarrow> maxsize (shared (step s ev)) = maxsize (shared s)
       \<and> qsize (shared (step s ev)) \<le> maxsize (shared s)"
proof (cases ev)
  case (Put_call item block timeout t0 t1)
  assume inv: "0 < maxsize (shared s)" "qsize (shared s) \<le> maxsize (shared s)"
  from put_cases [of "shared s" item block timeout t0 t1] inv Put_call
  show ?thesis
    by (auto simp: after_put_def put_append_def qsize_def split: result.splits)
next
  case (Put_wakeup item w now)
  assume inv: "0 < maxsize (shared s)" "qsize (shared s) \<le> maxsize (shared s)"
  from put_wakeup_cases [of "shared s" item w now] inv Put_wakeup
  show ?thesis
    by (auto simp: after_put_def put_append_def qsize_def split: result.splits)
next
  case (Get_call block timeout t0 t1)
  assume inv: "0 < maxsize (shared s)" "qsize (shared s) \<le> maxsize (shared s)"
  from get_cases [of "shared s" block timeout t0 t1] inv Get_call
  show ?thesis
    by (auto simp: after_get_def qsize_def split: result.splits)
next
  case (Get_wakeup w now)
  assume inv: "0 < maxsize (shared s)" "qsize (shared s) \<le> maxsize (shared s)"
  from get_wakeup_cases [of "shared s" w now] inv Get_wakeup
  show ?thesis
    by (auto simp: after_get_def qsize_def split: result.splits)
qed

lemma foldl_step_bounded:
  "0 < maxsize (shared s) \<Longrightarrow> qsize (shared s) \<le> maxsize (shared s)
   \<Longrightarrow> maxsize (shared (foldl step s evs)) = maxsize (shared s)
       \<and> qsize (shared (foldl step s evs)) \<le> maxsize (shared s)"
proof (induction evs arbitrary: s)
  case Nil
  then show ?case by simp
next
  case (Cons ev evs)
  from step_bounded [OF Cons.prems, of ev]
  have a: "maxsize (shared (step s ev)) = maxsize (shared s)"
    and b: "qsize (shared (step s ev)) \<le> maxsize (shared s)" by simp_all
  from Cons.IH [of "step s ev"] a b Cons.prems show ?case by simp
qed

text \<open>
  Claim C2. A queue constructed with \<^verbatim>\<open>maxsize\<close> \<open>k > 0\<close> keeps \<open>0 \<le> size \<le> k\<close> after
  every sequence of \<^verbatim>\<open>put\<close> and \<^verbatim>\<open>get\<close> operations, blocking or not, with or without a
  timeout, by any number of threads; its capacity stays \<open>k\<close>.
\<close>

theorem size_bounded:
  "0 < k \<Longrightarrow> 0 \<le> qsize (shared (exec k evs)) \<and> qsize (shared (exec k evs)) \<le> k
      \<and> maxsize (shared (exec k evs)) = k"
  using foldl_step_bounded [of "start_state k" evs]
  by (simp add: exec_def start_state_def new_queue_def qsize_def)

theorem size_bounded_witness:
  "(0::int) < 2 \<and> 0 \<le> qsize (shared (exec 2 example_schedule))
   \<and> qsize (shared (exec 2 example_schedule)) \<le> 2
   \<and> maxsize (shared (exec 2 example_schedule)) = 2"
proof -
  have h: "(0::int) < 2" by simp
  from size_bounded [OF h, of example_schedule] show ?thesis by simp
qed

subsection \<open>Negative timeouts\<close>

text \<open>
  Claim C5, as the code has it. With \<^verbatim>\<open>block=True\<close> and a timeout \<open>d < 0\<close>, \<^verbatim>\<open>get\<close>
  raises \<^verbatim>\<open>ValueError\<close> on every queue, and \<^verbatim>\<open>put\<close> raises \<^verbatim>\<open>ValueError\<close> on every
  bounded queue (\<^verbatim>\<open>maxsize > 0\<close>), in both cases without waiting and with the queue
  unchanged. On an unbounded queue \<^verbatim>\<open>put\<close> never looks at the timeout: it appends the item.
\<close>

theorem negative_timeout_rejected:
  "d < 0 \<Longrightarrow>
     get q True (Some d) t0 t1 = (Raised ValueError, q)
   \<and> (0 < maxsize q \<longrightarrow> put q item True (Some d) t0 t1 = (Raised ValueError, q))
   \<and> (\<not> 0 < maxsize q \<longrightarrow> put q item True (Some d) t0 t1 = put_append q item)"
  by (simp add: get_def put_def)

theorem negative_timeout_rejected_witness:
  "(- 1 :: real) < 0
   \<and> get \<lparr>queue_items = [5::nat], maxsize = 10\<rparr> True (Some (- 1)) 3 4
       = (Raised ValueError, \<lparr>queue_items = [5], maxsize = 10\<rparr>)
   \<and> 0 < maxsize \<lparr>queue_items = [5::nat], maxsize = 10\<rparr>
   \<and> put \<lparr>queue_items = [5::nat], maxsize = 10\<rparr> 6 True (Some (- 1)) 3 4
       = (Raised ValueError, \<lparr>queue_items = [5], maxsize = 10\<rparr>)
   \<and> \<not> 0 < maxsize \<lparr>queue_items = [5::nat], maxsize = 0\<rparr>
   \<and> put \<lparr>queue_items = [5::nat], maxsize = 0\<rparr> 6 True (Some (- 1)) 3 4
       = (Returned (), \<lparr>queue_items = [5, 6], maxsize = 0\<rparr>)"
  using negative_timeout_rejected [of "- 1" "\<lparr>queue_items = [5::nat], maxsize = 10\<rparr>" 3 4 6]
    negative_timeout_rejected [of "- 1" "\<lparr>queue_items = [5::nat], maxsize = 0\<rparr>" 3 4 6]
  by (simp add: put_append_def)

text \<open>
  The claim as written also covers unbounded queues. There a blocking \<^verbatim>\<open>put\<close> with
  timeout \<open>-1\<close> returns normally and the item is in the queue.
\<close>

theorem negative_timeout_unbounded_put_counterexample:
  "put (new_queue 0) (7::nat) True (Some (- 1)) 0 0
     = (Returned (), \<lparr>queue_items = [7], maxsize = 0\<rparr>)"
  by (simp add: put_def put_append_def new_queue_def)

subsection \<open>Non-blocking calls\<close>

text \<open>
  Claim C7. On a bounded queue at capacity (\<^verbatim>\<open>full()\<close> holds) \<^verbatim>\<open>put(item, block=False)\<close>
  raises \<^verbatim>\<open>QueueFull\<close> at once and leaves the queue as it was; on an empty queue
  (\<^verbatim>\<open>empty()\<close> holds) \<^verbatim>\<open>get(block=False)\<close> raises \<^verbatim>\<open>QueueEmpty\<close> at once and leaves the
  queue as it was. The timeout argument plays no part.
\<close>

theorem nonblocking_fails_immediately:
  "(q_full q \<longrightarrow> put q item False timeout t0 t1 = (Raised QueueFull, q))
   \<and> (q_empty q \<longrightarrow> get q False timeout t0 t1 = (Raised QueueEmpty, q))"
  by (simp add: q_full_def q_empty_def put_def get_def)

theorem nonblocking_fails_immediately_witness:
  "q_full \<lparr>queue_items = [1, 2::nat], maxsize = 2\<rparr>
   \<and> put \<lparr>queue_items = [1, 2::nat], maxsize = 2\<rparr> 3 False None 0 0
       = (Raised QueueFull, \<lparr>queue_items = [1, 2], maxsize = 2\<rparr>)
   \<and> q_empty (new_queue 2 :: nat ThreadSafeQueue)
   \<and> get (new_queue 2 :: nat ThreadSafeQueue) False None 0 0 = (Raised QueueEmpty, new_queue 2)"
proof -
  have f: "q_full \<lparr>queue_items = [1, 2::nat], maxsize = 2\<rparr>"
    by (simp add: q_full_def qsize_def)
  have e: "q_empty (new_queue 2 :: nat ThreadSafeQueue)"
    by (simp add: q_empty_def qsize_def new_queue_def)
  from f e
    nonblocking_fails_immediately [of "\<lparr>queue_items = [1, 2::nat], maxsize = 2\<rparr>" 3 None 0 0]
    nonblocking_fails_immediately [of "new_queue 2 :: nat ThreadSafeQueue" 3 None 0 0]
  show ?thesis by simp
qed

section \<open>Properties of the producer\<close>

text \<open>
  Three ways through the loop of \<^verbatim>\<open>_run\<close>, each by induction on the items still to
  come: to the end of the source, to a \<^verbatim>\<open>break\<close> at the first stop request, and to the
  \<^verbatim>\<open>raise\<close> at the first failed \<^verbatim>\<open>put\<close> under \<^verbatim>\<open>stop_on_error\<close>.
\<close>

lemma produce_loop_exhausted:
  "p_is_running p \<Longrightarrow>
   (\<forall>j<length items. \<not> stop_requested env (i + j)) \<Longrightarrow>
   (\<forall>j<length items. put_raises env (i + j) = None \<or> \<not> p_stop_on_error (p_config p)) \<Longrightarrow>
   \<exists>p'. produce_loop env i items p calls
          = (p', calls @ map (\<lambda>x. Call_put x True (put_timeout (p_config p))) items, Exhausted)
        \<and> p_sentinel p' = p_sentinel p"
proof (induction items arbitrary: i p calls)
  case Nil
  then show ?case by simp
next
  case (Cons x rest)
  have nostop: "\<not> stop_requested env i" using Cons.prems(2) by force
  have ok: "put_raises env i = None \<or> \<not> p_stop_on_error (p_config p)"
    using Cons.prems(3) by force
  have s: "\<forall>j<length rest. \<not> stop_requested env (Suc i + j)"
    using Cons.prems(2) by force
  have r: "\<forall>j<length rest. put_raises env (Suc i + j) = None \<or> \<not> p_stop_on_error (p_config p)"
    using Cons.prems(3) by force
  show ?case
  proof (cases "put_raises env i")
    case None
    let ?p1 = "p\<lparr>p_items_produced := p_items_produced p + 1\<rparr>"
    from Cons.IH [of ?p1 "Suc i" "calls @ [Call_put x True (put_timeout (p_config p))]"]
      Cons.prems(1) s r
    show ?thesis using None nostop Cons.prems(1) by (simp add: produce_item_def)
  next
    case (Some e)
    let ?p1 = "p\<lparr>p_errors_encountered := p_errors_encountered p + 1\<rparr>"
    from Cons.IH [of ?p1 "Suc i" "calls @ [Call_put x True (put_timeout (p_config p))]"]
      Cons.prems(1) s r
    show ?thesis using Some ok nostop Cons.prems(1) by (simp add: produce_item_def)
  qed
qed

lemma produce_loop_stopped:
  "p_is_running p \<Longrightarrow> k < length items \<Longrightarrow> stop_requested env (i + k) \<Longrightarrow>
   (\<forall>j<k. \<not> stop_requested env (i + j)) \<Longrightarrow>
   (\<forall>j<k. put_raises env (i + j) = None \<or> \<not> p_stop_on_error (p_config p)) \<Longrightarrow>
   \<exists>p'. produce_loop env i items p calls
          = (p', calls @ map (\<lambda>x. Call_put x True (put_timeout (p_config p))) (take k items),
             Stopped_early)
        \<and> p_sentinel p' = p_sentinel p"
proof (induction items arbitrary: i p calls k)
  case Nil
  then show ?case by simp
next
  case (Cons x rest)
  show ?case
  proof (cases k)
    case 0
    then show ?thesis using Cons.prems by (simp add: producer_stop_def)
  next
    case (Suc k')
    have nostop: "\<not> stop_requested env i" using Cons.prems(4) Suc by force
    have ok: "put_raises env i = None \<or> \<not> p_stop_on_error (p_config p)"
      using Cons.prems(5) Suc by force
    have len: "k' < length rest" using Cons.prems(2) Suc by simp
    have st: "stop_requested env (Suc i + k')" using Cons.prems(3) Suc by simp
    have s: "\<forall>j<k'. \<not> stop_requested env (Suc i + j)"
      using Cons.prems(4) Suc by force
    have r: "\<forall>j<k'. put_raises env (Suc i + j) = None \<or> \<not> p_stop_on_error (p_config p)"
      using Cons.prems(5) Suc by force
    show ?thesis
    proof (cases "put_raises env i")
      case None
      let ?p1 = "p\<lparr>p_items_produced := p_items_produced p + 1\<rparr>"
      from Cons.IH [of ?p1 k' "Suc i" "calls @ [Call_put x True (put_timeout (p_config p))]"]
        Cons.prems(1) len st s r
      show ?thesis using None nostop Cons.prems(1) Suc by (simp add: produce_item_def)
    next
      case (Some e)
      let ?p1 = "p\<lparr>p_errors_encountered := p_errors_encountered p + 1\<rparr>"
      from Cons.IH [of ?p1 k' "Suc i" "calls @ [Call_put x True (put_timeout (p_config p))]"]
        Cons.prems(1) len st s r
      show ?thesis using Some ok nostop Cons.prems(1) Suc by (simp add: produce_item_def)
    qed
  qed
qed

lemma produce_loop_failed:
  "p_is_running p \<Longrightarrow> k < length items \<Longrightarrow> p_stop_on_error (p_config p) \<Longrightarrow>
   put_raises env (i + k) \<noteq> None \<Longrightarrow>
   (\<forall>j\<le>k. \<not> stop_requested env (i + j)) \<Longrightarrow>
   (\<forall>j<k. put_raises env (i + j) = None) \<Longrightarrow>
   \<exists>p'. produce_loop env i items p calls
          = (p', calls @ map (\<lambda>x. Call_put x True (put_timeout (p_config p))) (take (Suc k) items),
             Failed (ProducerError ''Producer stopped due to error''))"
proof (induction items arbitrary: i p calls k)
  case Nil
  then show ?case by simp
next
  case (Cons x rest)
  have nostop: "\<not> stop_requested env i" using Cons.prems(5) by force
  show ?case
  proof (cases k)
    case 0
    then show ?thesis using Cons.prems nostop by (auto simp: produce_item_def)
  next
    case (Suc k')
    have ok: "put_raises env i = None" using Cons.prems(6) Suc by force
    have len: "k' < length rest" using Cons.prems(2) Suc by simp
    have f: "put_raises env (Suc i + k') \<noteq> None" using Cons.prems(4) Suc by simp
    have s: "\<forall>j\<le>k'. \<not> stop_requested env (Suc i + j)"
      using Cons.prems(5) Suc by force
    have r: "\<forall>j<k'. put_raises env (Suc i + j) = None"
      using Cons.prems(6) Suc by force
    let ?p1 = "p\<lparr>p_items_produced := p_items_produced p + 1\<rparr>"
    from Cons.IH [of ?p1 k' "Suc i" "calls @ [Call_put x True (put_timeout (p_config p))]"]
      Cons.prems(1,3) len f s r
    show ?thesis using ok nostop Cons.prems(1) Suc by (simp add: produce_item_def)
  qed
qed

text \<open>
  Claim C3. Take a producer whose thread has been started (running flag set). If nobody
  calls \<^verbatim>\<open>stop\<close> and no failed \<^verbatim>\<open>put\<close> meets \<^verbatim>\<open>stop_on_error\<close>, the calls it makes on the
  queue are one \<^verbatim>\<open>put(item, block=True, timeout=put_timeout)\<close> per source item followed
  by \<^verbatim>\<open>put(sentinel, block=True, timeout=None)\<close>. If \<^verbatim>\<open>stop\<close> is first called before
  iteration \<open>k\<close>, they are the puts of the first \<open>k\<close> items followed by the same sentinel
  call, so the sentinel is never sent with the configured timeout. If under
  \<^verbatim>\<open>stop_on_error\<close> the \<^verbatim>\<open>put\<close> of item \<open>k\<close> is the first to fail, the calls are the puts of
  the items up to and including that one and nothing else: the thread ends with
  \<^verbatim>\<open>ProducerError\<close> and no sentinel call is made.
\<close>

theorem producer_sentinel_delivery:
  assumes "p_is_running p"
  shows
    "((\<forall>i<length (source p). \<not> stop_requested env i)
       \<and> (\<forall>i<length (source p). put_raises env i = None \<or> \<not> p_stop_on_error (p_config p))
      \<longrightarrow> fst (snd (producer_run env p))
            = map (\<lambda>x. Call_put x True (put_timeout (p_config p))) (source p)
              @ [Call_put (p_sentinel p) True None])
   \<and> (k < length (source p) \<and> stop_requested env k \<and> (\<forall>i<k. \<not> stop_requested env i)
       \<and> (\<forall>i<k. put_raises env i = None \<or> \<not> p_stop_on_error (p_config p))
      \<longrightarrow> fst (snd (producer_run env p))
            = map (\<lambda>x. Call_put x True (put_timeout (p_config p))) (take k (source p))
              @ [Call_put (p_sentinel p) True None])
   \<and> (k < length (source p) \<and> p_stop_on_error (p_config p) \<and> put_raises env k \<noteq> None
       \<and> (\<forall>i\<le>k. \<not> stop_requested env i) \<and> (\<forall>i<k. put_raises env i = None)
      \<longrightarrow> snd (producer_run env p)
            = (map (\<lambda>x. Call_put x True (put_timeout (p_config p))) (take (Suc k) (source p)),
               Some (ProducerError ''Producer stopped due to error'')))"
proof (intro conjI impI)
  assume h: "(\<forall>i<length (source p). \<not> stop_requested env i)
       \<and> (\<forall>i<length (source p). put_raises env i = None \<or> \<not> p_stop_on_error (p_config p))"
  from produce_loop_exhausted [of p "source p" env 0 "[]"] assms h
  obtain p' where "produce_loop env 0 (source p) p []
          = (p', map (\<lambda>x. Call_put x True (put_timeout (p_config p))) (source p), Exhausted)"
     and "p_sentinel p' = p_sentinel p" by auto
  then show "fst (snd (producer_run env p))
            = map (\<lambda>x. Call_put x True (put_timeout (p_config p))) (source p)
              @ [Call_put (p_sentinel p) True None]"
    by (simp add: producer_run_def send_sentinel_def split: option.splits)
next
  assume h: "k < length (source p) \<and> stop_requested env k \<and> (\<forall>i<k. \<not> stop_requested env i)
       \<and> (\<forall>i<k. put_raises env i = None \<or> \<not> p_stop_on_error (p_config p))"
  from produce_loop_stopped [of p k "source p" env 0 "[]"] assms h
  obtain p' where "produce_loop env 0 (source p) p []
          = (p', map (\<lambda>x. Call_put x True (put_timeout (p_config p))) (take k (source p)),
             Stopped_early)"
     and "p_sentinel p' = p_sentinel p" by auto
  then show "fst (snd (producer_run env p))
            = map (\<lambda>x. Call_put x True (put_timeout (p_config p))) (take k (source p))
              @ [Call_put (p_sentinel p) True None]"
    by (simp add: producer_run_def send_sentinel_def split: option.splits)
next
  assume h: "k < length (source p) \<and> p_stop_on_error (p_config p) \<and> put_raises env k \<noteq> None
       \<and> (\<forall>i\<le>k. \<not> stop_requested env i) \<and> (\<forall>i<k. put_raises env i = None)"
  from produce_loop_failed [of p k "source p" env 0 "[]"] assms h
  obtain p' where "produce_loop env 0 (source p) p []
          = (p', map (\<lambda>x. Call_put x True (put_timeout (p_config p))) (take (Suc k) (source p)),
             Failed (ProducerError ''Producer stopped due to error''))"
    by auto
  then show "snd (producer_run env p)
            = (map (\<lambda>x. Call_put x True (put_timeout (p_config p))) (take (Suc k) (source p)),
               Some (ProducerError ''Producer stopped due to error''))"
    by (simp add: producer_run_def)
qed

lemma started_example_producer:
  "producer_start example_producer
     = Inr (example_producer\<lparr>p_thread := Some (Thread ''P1''), p_is_running := True\<rparr>)"
  by (simp add: producer_start_def example_producer_def new_producer_def
        example_producer_config_def)

theorem producer_sentinel_delivery_witness:
  "fst (snd (producer_run quiet_queue
               (example_producer\<lparr>p_thread := Some (Thread ''P1''), p_is_running := True\<rparr>)))
     = [Call_put 1 True (Some 1), Call_put 2 True (Some 1), Call_put 3 True (Some 1),
        Call_put 0 True None]
   \<and> fst (snd (producer_run (stop_at 1)
               (example_producer\<lparr>p_thread := Some (Thread ''P1''), p_is_running := True\<rparr>)))
     = [Call_put 1 True (Some 1), Call_put 0 True None]
   \<and> snd (producer_run (full_at 1)
               (example_producer\<lparr>p_thread := Some (Thread ''P1''), p_is_running := True\<rparr>))
     = ([Call_put 1 True (Some 1), Call_put 2 True (Some 1)],
        Some (ProducerError ''Producer stopped due to error''))"
proof -
  let ?p = "example_producer\<lparr>p_thread := Some (Thread ''P1''), p_is_running := True\<rparr>"
  have run: "p_is_running ?p" by simp
  have src: "source ?p = [1, 2, 3]" and cfg: "p_config ?p = example_producer_config"
    and sen: "p_sentinel ?p = 0"
    by (simp_all add: example_producer_def new_producer_def)
  have a: "fst (snd (producer_run quiet_queue ?p))
     = [Call_put 1 True (Some 1), Call_put 2 True (Some 1), Call_put 3 True (Some 1),
        Call_put 0 True None]"
    using producer_sentinel_delivery [OF run, of quiet_queue 0]
    by (simp add: src cfg sen quiet_queue_def example_producer_config_def)
  have b: "fst (snd (producer_run (stop_at 1) ?p))
     = [Call_put 1 True (Some 1), Call_put 0 True None]"
    using producer_sentinel_delivery [OF run, of "stop_at 1" 1]
    by (simp add: src cfg sen stop_at_def example_producer_config_def)
  have c: "snd (producer_run (full_at 1) ?p)
     = ([Call_put 1 True (Some 1), Call_put 2 True (Some 1)],
        Some (ProducerError ''Producer stopped due to error''))"
    using producer_sentinel_delivery [OF run, of "full_at 1" 1]
    by (simp add: src cfg sen full_at_def example_producer_config_def)
  from a b c show ?thesis by simp
qed

section \<open>Properties of the consumer\<close>

text \<open>
  Claim C4. In one pass of the consumer loop: a \<^verbatim>\<open>get\<close> that raises \<^verbatim>\<open>QueueEmpty\<close>
  leaves the consumer as it was, error counter included, and the loop goes on with the
  next pass; a removed value that is the sentinel ends the loop, the thread finishing
  without an exception and with nothing but the running flag changed; any other removed
  value is appended to the destination list and the consumed counter grows by one, after
  which the loop goes on.
\<close>

theorem consumer_loop_iteration:
  fixes c :: "('a, 'd) Consumer" and cl :: "('a, 'a list) Consumer"
  shows
    "snd (consumer_iteration app c (Inl QueueEmpty)) = (c, Continue)
   \<and> snd (consumer_iteration app c (Inr (c_sentinel c))) = (c, Break)
   \<and> (item \<noteq> c_sentinel cl \<longrightarrow>
        snd (consumer_iteration list_append cl (Inr item))
          = (cl\<lparr>destination := destination cl @ [item],
                c_items_consumed := c_items_consumed cl + 1\<rparr>, Continue))
   \<and> (c_is_running c \<longrightarrow>
        consume_loop app ((False, Inl QueueEmpty) # rest) c = consume_loop app rest c)
   \<and> (c_is_running c \<longrightarrow>
        consumer_run app ((False, Inr (c_sentinel c)) # rest) c
          = (c\<lparr>c_is_running := False\<rparr>, Completed))
   \<and> (c_is_running cl \<and> item \<noteq> c_sentinel cl \<longrightarrow>
        consume_loop list_append ((False, Inr item) # rest') cl
          = consume_loop list_append rest'
              (cl\<lparr>destination := destination cl @ [item],
                  c_items_consumed := c_items_consumed cl + 1\<rparr>))"
  by (simp add: consumer_iteration_def consumer_try_def consume_item_def list_append_def
        consumer_run_def)

theorem consumer_loop_iteration_witness:
  "c_is_running (example_consumer\<lparr>c_is_running := True\<rparr>)
   \<and> (7::nat) \<noteq> c_sentinel (example_consumer\<lparr>c_is_running := True\<rparr>)
   \<and> consume_loop list_append [(False, Inl QueueEmpty)] (example_consumer\<lparr>c_is_running := True\<rparr>)
       = (example_consumer\<lparr>c_is_running := True\<rparr>, Still_looping)
   \<and> consumer_run list_append [(False, Inr 0)] (example_consumer\<lparr>c_is_running := True\<rparr>)
       = (example_consumer, Completed)
   \<and> consume_loop list_append [(False, Inr 7)] (example_consumer\<lparr>c_is_running := True\<rparr>)
       = (example_consumer\<lparr>c_is_running := True, destination := [7], c_items_consumed := 1\<rparr>,
          Still_looping)"
proof -
  let ?c = "example_consumer\<lparr>c_is_running := True\<rparr>"
  have run: "c_is_running ?c" by simp
  have sen: "c_sentinel ?c = 0" and dst: "destination ?c = []" and n: "c_items_consumed ?c = 0"
    and off: "?c\<lparr>c_is_running := False\<rparr> = example_consumer"
    by (simp_all add: example_consumer_def new_consumer_def)
  from consumer_loop_iteration [of list_append ?c 7 ?c "[]" "[]"] run sen dst n off
  show ?thesis by simp
qed

section \<open>Properties of the coordinator\<close>

text \<open>
  Claim C6. The claim asks \<^verbatim>\<open>add_producer\<close> and \<^verbatim>\<open>add_consumer\<close> to fail while any
  managed worker runs. \<^verbatim>\<open>add_producer\<close> looks at the producers only and \<^verbatim>\<open>add_consumer\<close>
  at the consumers only: with a running consumer and no running producer
  \<^verbatim>\<open>add_producer\<close> appends the new producer, and with a running producer and no running
  consumer \<^verbatim>\<open>add_consumer\<close> appends the new consumer.
\<close>

theorem add_worker_while_other_kind_runs:
  "list_ex c_is_running [example_consumer\<lparr>c_is_running := True\<rparr>]
   \<and> add_producer
       (new_coordinator example_coordinator_config [] [example_consumer\<lparr>c_is_running := True\<rparr>])
       example_producer
     = Inr (new_coordinator example_coordinator_config [example_producer]
              [example_consumer\<lparr>c_is_running := True\<rparr>])
   \<and> list_ex p_is_running [example_producer\<lparr>p_is_running := True\<rparr>]
   \<and> add_consumer
       (new_coordinator example_coordinator_config [example_producer\<lparr>p_is_running := True\<rparr>] [])
       example_consumer
     = Inr (new_coordinator example_coordinator_config
              [example_producer\<lparr>p_is_running := True\<rparr>] [example_consumer])"
  by (simp add: add_producer_def add_consumer_def new_coordinator_def)

text \<open>
  When no worker is running, starting the workers gives each its thread and sets its
  running flag, and raises nothing.
\<close>

lemma start_producers_fresh:
  "\<not> list_ex p_is_running ps \<Longrightarrow>
   start_producers ps
     = (None, map (\<lambda>p. p\<lparr>p_thread := Some (Thread (p_name (p_config p))),
                          p_is_running := True\<rparr>) ps)"
  by (induction ps) (simp_all add: producer_start_def)

lemma start_consumers_fresh:
  "\<not> list_ex c_is_running cs \<Longrightarrow>
   start_consumers cs
     = (None, map (\<lambda>c. c\<lparr>c_thread := Some (Thread (c_name (c_config c))),
                          c_is_running := True\<rparr>) cs)"
  by (induction cs) (simp_all add: consumer_start_def)

text \<open>
  Claim C8. When \<^verbatim>\<open>run\<close> returns a metrics record, with the clock away from the epoch
  so that neither reading of \<^verbatim>\<open>time.time()\<close> is \<open>0.0\<close>, that record is the
  coordinator's own; the managed workers are the workers the coordinator was given, each
  started and then left as its thread left it; \<^verbatim>\<open>items_produced\<close>, \<^verbatim>\<open>items_consumed\<close>,
  \<^verbatim>\<open>producer_errors\<close> and \<^verbatim>\<open>consumer_errors\<close> are the sums of the corresponding
  counters over these workers; the start and end times are the two clock readings; and
  \<^verbatim>\<open>execution_duration\<close> is end time minus start time.
\<close>

theorem run_metrics:
  assumes "coordinator_run env co = (Inr m, co')"
    and "clock_start env \<noteq> 0" and "clock_end env \<noteq> 0"
  shows
    "m = metrics co'
   \<and> producers co'
       = map (\<lambda>p. producer_thread env
                     (p\<lparr>p_thread := Some (Thread (p_name (p_config p))), p_is_running := True\<rparr>))
           (producers co)
   \<and> consumers co'
       = map (\<lambda>c. consumer_thread env
                     (c\<lparr>c_thread := Some (Thread (c_name (c_config c))), c_is_running := True\<rparr>))
           (consumers co)
   \<and> items_produced m = sum_list (map p_items_produced (producers co'))
   \<and> items_consumed m = sum_list (map c_items_consumed (consumers co'))
   \<and> producer_errors m = sum_list (map p_errors_encountered (producers co'))
   \<and> consumer_errors m = sum_list (map c_errors_encountered (consumers co'))
   \<and> start_time m = clock_start env \<and> end_time m = clock_end env
   \<and> execution_duration m = end_time m - start_time m"
proof -
  have idle: "\<not> list_ex p_is_running (producers co)" "\<not> list_ex c_is_running (consumers co)"
    using assms(1) by (auto simp: coordinator_run_def split: if_splits)
  note sp = start_producers_fresh [OF idle(1)] and sc = start_consumers_fresh [OF idle(2)]
  from assms show ?thesis
    by (auto simp: coordinator_run_def run_failed_def Let_def collect_metrics_def sp sc
          calculate_duration_def threads_ran_def o_def
        split: if_splits sum.splits)
qed

lemma example_run_later:
  "fst (coordinator_run (example_env 100 105) example_coordinator)
     = Inr \<lparr>items_produced = 3, items_consumed = 3, producer_errors = 0, consumer_errors = 0,
            start_time = 100, end_time = 105, execution_duration = 5\<rparr>"
  by code_simp

theorem run_metrics_witness:
  "clock_start (example_env 100 105) \<noteq> 0 \<and> clock_end (example_env 100 105) \<noteq> 0
   \<and> fst (coordinator_run (example_env 100 105) example_coordinator)
     = Inr \<lparr>items_produced = 3, items_consumed = 3, producer_errors = 0, consumer_errors = 0,
            start_time = 100, end_time = 105, execution_duration = 5\<rparr>
   \<and> length (producers (snd (coordinator_run (example_env 100 105) example_coordinator))) = 1
   \<and> sum_list (map p_items_produced
        (producers (snd (coordinator_run (example_env 100 105) example_coordinator)))) = 3
   \<and> sum_list (map c_items_consumed
        (consumers (snd (coordinator_run (example_env 100 105) example_coordinator)))) = 3"
proof -
  let ?m = "\<lparr>items_produced = 3, items_consumed = 3, producer_errors = 0, consumer_errors = 0,
            start_time = 100, end_time = 105, execution_duration = 5\<rparr>"
  have t: "clock_start (example_env 100 105) \<noteq> 0" "clock_end (example_env 100 105) \<noteq> 0"
    by (simp_all add: example_env_def)
  have f: "fst (coordinator_run (example_env 100 105) example_coordinator) = Inr ?m"
    by (rule example_run_later)
  then have r: "coordinator_run (example_env 100 105) example_coordinator
      = (Inr ?m, snd (coordinator_run (example_env 100 105) example_coordinator))"
    by (metis prod.collapse)
  have n: "length (producers example_coordinator) = 1"
    by (simp add: example_coordinator_def new_coordinator_def)
  note facts = run_metrics [OF r t]
  let ?co = "snd (coordinator_run (example_env 100 105) example_coordinator)"
  from facts have a: "items_produced ?m = sum_list (map p_items_produced (producers ?co))"
    by blast
  from facts have b: "items_consumed ?m = sum_list (map c_items_consumed (consumers ?co))"
    by blast
  from facts have "length (producers ?co) = length (producers example_coordinator)"
    by simp
  with n have c: "length (producers ?co) = 1" by simp
  have a': "sum_list (map p_items_produced (producers ?co)) = 3" using a by simp
  have b': "sum_list (map c_items_consumed (consumers ?co)) = 3" using b by simp
  from t f c a' b' show ?thesis by blast
qed

section \<open>Joining a worker that was never started\<close>

text \<open>
  Claim C9. A producer or a consumer whose \<^verbatim>\<open>_thread\<close> is \<^verbatim>\<open>None\<close>, because \<^verbatim>\<open>start\<close>
  was never called, answers \<^verbatim>\<open>True\<close> to \<^verbatim>\<open>join(timeout)\<close> for every timeout, \<^verbatim>\<open>None\<close>
  included, without consulting any thread.
\<close>

theorem join_before_start:
  "(p_thread p = None \<longrightarrow> producer_join p timeout alive = True)
   \<and> (c_thread c = None \<longrightarrow> consumer_join c timeout alive = True)"
  by (simp add: producer_join_def consumer_join_def)

theorem join_before_start_witness:
  "p_thread example_producer = None \<and> c_thread example_consumer = None
   \<and> producer_join example_producer None True = True
   \<and> consumer_join example_consumer (Some 30) True = True"
proof -
  have p: "p_thread example_producer = None"
    by (simp add: example_producer_def new_producer_def)
  have c: "c_thread example_consumer = None"
    by (simp add: example_consumer_def new_consumer_def)
  from join_before_start [of example_producer None True example_consumer] p
  have a: "producer_join example_producer None True = True" by blast
  from join_before_start [of example_producer "Some 30" True example_consumer] c
  have b: "consumer_join example_consumer (Some 30) True = True" by blast
  from p c a b show ?thesis by simp
qed

section \<open>Properties of the metrics\<close>

text \<open>
  Claim C10. \<^verbatim>\<open>calculate_duration\<close> sets \<^verbatim>\<open>execution_duration\<close> to end time minus start
  time, touching no other field, when both times are nonzero; when either time is zero
  it leaves the whole record as it was.
\<close>

theorem calculate_duration_guard:
  "(start_time m \<noteq> 0 \<and> end_time m \<noteq> 0
      \<longrightarrow> calculate_duration m = m\<lparr>execution_duration := end_time m - start_time m\<rparr>)
   \<and> (start_time m = 0 \<or> end_time m = 0 \<longrightarrow> calculate_duration m = m)"
  by (simp add: calculate_duration_def)

theorem calculate_duration_guard_witness:
  "calculate_duration (new_metrics\<lparr>start_time := 100, end_time := 103\<rparr>)
     = new_metrics\<lparr>start_time := 100, end_time := 103, execution_duration := 3\<rparr>
   \<and> calculate_duration (new_metrics\<lparr>end_time := 103, execution_duration := 7\<rparr>)
     = new_metrics\<lparr>end_time := 103, execution_duration := 7\<rparr>"
  using calculate_duration_guard [of "new_metrics\<lparr>start_time := 100, end_time := 103\<rparr>"]
    calculate_duration_guard [of "new_metrics\<lparr>end_time := 103, execution_duration := 7\<rparr>"]
  by (simp add: new_metrics_def)

end
